theory Spec2Isabelle
  imports Complex_Main "HOL-Library.Multiset"
begin

section \<open>The logs view of prophet: a shallow embedding of \<open>src/providers/LogsView.ts\<close>\<close>

text \<open>
  Strings are lists of characters, a character being a code unit below 256 (the
  patterns and the constants of the source are ASCII). Objects of the host platform
  (the DOM built by xmldom, \<open>Date\<close>, \<open>timeago\<close>, \<open>path\<close>, \<open>Uri\<close>, the WebDAV
  transport) are not part of the sources: what they compute is a field of the record
  \<open>platform\<close> or an argument of the operation that receives it, and every theorem
  holds for all of their values unless it states an assumption about them.
\<close>

subsection \<open>JavaScript strings\<close>

abbreviation newline :: char where "newline \<equiv> CHR 0x0A"
abbreviation tab :: char where "tab \<equiv> CHR 0x09"

text \<open>\<open>String.prototype.endsWith\<close>, \<open>startsWith\<close> and \<open>includes\<close>.\<close>

definition endsWith :: "string \<Rightarrow> string \<Rightarrow> bool" where
  "endsWith s suffix =
     (length suffix \<le> length s \<and> drop (length s - length suffix) s = suffix)"

fun startsWith :: "string \<Rightarrow> string \<Rightarrow> bool" where
  "startsWith s [] = True"
| "startsWith [] (c # p) = False"
| "startsWith (x # s) (c # p) = (x = c \<and> startsWith s p)"

fun includes_js :: "string \<Rightarrow> string \<Rightarrow> bool" where
  "includes_js [] t = (t = [])"
| "includes_js (x # s) t = (startsWith (x # s) t \<or> includes_js s t)"

text \<open>
  \<open>s.replace(pattern, replacement)\<close> with a string pattern: the first occurrence only.
  The source passes the replacement \<open>''\<close>, which has no \<open>$\<close> pattern, so the
  replacement is inserted as it is.
\<close>

fun replace_string :: "string \<Rightarrow> string \<Rightarrow> string \<Rightarrow> string" where
  "replace_string pattern replacement [] = (if pattern = [] then replacement else [])"
| "replace_string pattern replacement (x # s) =
     (if startsWith (x # s) pattern then replacement @ drop (length pattern) (x # s)
      else x # replace_string pattern replacement s)"

text \<open>\<open>s.split(sep)\<close> with a one-character separator: never empty, \<open>''.split('.')\<close> is \<open>['']\<close>.\<close>

fun split :: "char \<Rightarrow> string \<Rightarrow> string list" where
  "split sep [] = [[]]"
| "split sep (x # s) =
     (if x = sep then [] # split sep s
      else (case split sep s of [] \<Rightarrow> [[x]] | p # ps \<Rightarrow> (x # p) # ps))"

text \<open>\<open>String(v)\<close> of a string or \<open>undefined\<close> (\<open>None\<close>).\<close>

fun String_of :: "string option \<Rightarrow> string" where
  "String_of None = ''undefined''"
| "String_of (Some s) = s"

text \<open>
  Canonicalisation of a character under the \<open>i\<close> flag (without \<open>u\<close>): the upper-case
  form. Only \<open>a\<close> to \<open>z\<close> change among the characters that can be equal to an ASCII
  character of a pattern afterwards.
\<close>

definition toUpperCase :: "char \<Rightarrow> char" where
  "toUpperCase c =
     (case map_of (zip ''abcdefghijklmnopqrstuvwxyz'' ''ABCDEFGHIJKLMNOPQRSTUVWXYZ'') c of
        Some u \<Rightarrow> u | None \<Rightarrow> c)"

definition is_digit :: "char \<Rightarrow> bool" where
  "is_digit c = (c \<in> set ''0123456789'')"

definition line_terminator :: "char \<Rightarrow> bool" where
  "line_terminator c = (c = newline \<or> c = CHR 0x0D)"

subsection \<open>The regular expressions of the source, by backtracking\<close>

text \<open>
  The four regular expressions of the source are sequences of: a literal character
  (\<open>Lit\<close>, compared case-insensitively since all four carry the \<open>i\<close> flag), \<open>\d{0,2}\<close>
  (\<open>Digits02\<close>, greedy), \<open>.\<close> (\<open>Dot\<close>), \<open>.*?\<close> (\<open>LazyDots\<close>; \<open>.+?\<close> is \<open>Dot\<close>
  then \<open>LazyDots\<close>), and the parentheses of a capture group (\<open>Mark\<close>, which records the
  text still to be read at that point). \<open>match_here\<close> matches at the start of the string
  and returns the marks and the text after the match, trying the alternatives of a
  quantifier in the order of the ECMAScript semantics.
\<close>

datatype item = Lit char | Digits02 | Dot | LazyDots | Mark

fun match_here :: "item list \<Rightarrow> string \<Rightarrow> (string list \<times> string) option" where
  "match_here [] s = Some ([], s)"
| "match_here (Mark # r) s =
     (case match_here r s of None \<Rightarrow> None | Some (ms, t) \<Rightarrow> Some (s # ms, t))"
| "match_here (Lit c # r) [] = None"
| "match_here (Lit c # r) (x # s) =
     (if toUpperCase x = toUpperCase c then match_here r s else None)"
| "match_here (Dot # r) [] = None"
| "match_here (Dot # r) (x # s) = (if line_terminator x then None else match_here r s)"
| "match_here (LazyDots # r) [] = match_here r []"
| "match_here (LazyDots # r) (x # s) =
     (case match_here r (x # s) of
        Some m \<Rightarrow> Some m
      | None \<Rightarrow> if line_terminator x then None else match_here (LazyDots # r) s)"
| "match_here (Digits02 # r) [] = match_here r []"
| "match_here (Digits02 # r) [x] =
     (case (if is_digit x then match_here r [] else None) of
        Some m \<Rightarrow> Some m
      | None \<Rightarrow> match_here r [x])"
| "match_here (Digits02 # r) (x # y # s) =
     (case (if is_digit x \<and> is_digit y then match_here r s else None) of
        Some m \<Rightarrow> Some m
      | None \<Rightarrow>
         (case (if is_digit x then match_here r (y # s) else None) of
            Some m \<Rightarrow> Some m
          | None \<Rightarrow> match_here r (x # y # s)))"

text \<open>
  The arguments of a replacement callback: the matched text \<open>$0\<close>, then one text per
  capture group, each the text between the group's two marks.
\<close>

definition groups :: "string \<Rightarrow> string list \<times> string \<Rightarrow> string list" where
  "groups s m =
     take (length s - length (snd m)) s #
     map (\<lambda>i. take (length (fst m ! (2 * i)) - length (fst m ! (2 * i + 1))) (fst m ! (2 * i)))
       [0 ..< length (fst m) div 2]"

text \<open>
  \<open>s.replace(/re/g, f)\<close>: scan from the left; at a match, emit the replacement and go on
  after the match (one character further after an empty match), otherwise copy one
  character.
\<close>

function replace_all :: "item list \<Rightarrow> (string list \<Rightarrow> string) \<Rightarrow> string \<Rightarrow> string" where
  "replace_all re f [] =
     (case match_here re [] of None \<Rightarrow> [] | Some m \<Rightarrow> f (groups [] m))"
| "replace_all re f (x # s) =
     (case match_here re (x # s) of
        None \<Rightarrow> x # replace_all re f s
      | Some m \<Rightarrow>
          if length (snd m) \<le> length s then f (groups (x # s) m) @ replace_all re f (snd m)
          else f (groups (x # s) m) @ x # replace_all re f s)"
  by pat_completeness auto
termination
  by (relation "measure (\<lambda>(re, f, s). length s)") auto

text \<open>\<open>/-blade\d{0,2}-\d{0,2}-appserver/ig\<close> of \<open>parseResponse\<close>.\<close>

definition blade_re :: "item list" where
  "blade_re = map Lit ''-blade'' @ [Digits02, Lit CHR ''-'', Digits02] @ map Lit ''-appserver''"

text \<open>\<open>name.replace(/-blade\d{0,2}-\d{0,2}-appserver/ig, '')\<close>.\<close>

definition remove_qualifiers :: "string \<Rightarrow> string" where
  "remove_qualifiers name = replace_all blade_re (\<lambda>g. []) name"

text \<open>\<open>/\[(.+? GMT)\] /ig\<close>, \<open>/\tat (.*?):(.*?) \(/ig\<close> and \<open>/  /ig\<close> of \<open>openLog\<close>.\<close>

definition timestamp_re :: "item list" where
  "timestamp_re = [Lit CHR ''['', Mark, Dot, LazyDots] @ map Lit '' GMT'' @ [Mark] @ map Lit ''] ''"

definition frame_re :: "item list" where
  "frame_re = map Lit (tab # ''at '') @ [Mark, LazyDots, Mark, Lit CHR '':'', Mark, LazyDots, Mark]
     @ map Lit '' (''"

definition spaces_re :: "item list" where
  "spaces_re = [Lit CHR '' '', Lit CHR '' '']"

subsection \<open>The platform\<close>

text \<open>
  A number as \<open>Number(text)\<close> returns it. A date is its time value in milliseconds, \<open>None\<close>
  for an invalid date.
\<close>

datatype js_number = NaN | Finite rat | PosInfinity | NegInfinity

datatype node = Element string "node list" | Text string

text \<open>The descriptor of a log file (class \<open>LogStatus\<close>).\<close>

record LogStatus =
  filename :: string
  lastmodifed :: "int option"
  filePath :: string
  length_js :: js_number

record platform =
  parseFromString :: "string \<Rightarrow> node list option"
  Date_parse :: "string \<Rightarrow> int option"
  Date_toString :: "int option \<Rightarrow> string"
  Date_now :: int
  timeago_format :: "int option \<Rightarrow> string"
  StringToNumber :: "string \<Rightarrow> js_number"
  path_join :: "string \<Rightarrow> string list \<Rightarrow> string"
  path_basename :: "string \<Rightarrow> string"
  Uri_parse_toString :: "string \<Rightarrow> string"
  engine_sort :: "(LogStatus \<Rightarrow> LogStatus \<Rightarrow> int option) \<Rightarrow> LogStatus list \<Rightarrow> LogStatus list"

text \<open>
  \<open>parseFromString\<close> gives the child nodes of the document that xmldom builds, or
  \<open>None\<close> when it returns \<open>undefined\<close> (as it does for an empty text);
  \<open>Date_parse text\<close> is \<open>new Date(text)\<close>, \<open>Date_toString\<close> the text of a date in a
  template literal, \<open>Date_now\<close> the time of \<open>new Date()\<close>, \<open>timeago_format\<close> is
  \<open>timeago().format\<close>, \<open>StringToNumber\<close> is \<open>Number\<close> on a string, \<open>path_join root
  segments\<close> is \<open>join(root, ...segments)\<close> and \<open>Uri_parse_toString p\<close> is
  \<open>Uri.parse(p).toString()\<close>. \<open>engine_sort comparefn\<close> is the order in which the
  engine's \<open>Array.prototype.sort\<close> leaves an array when \<open>comparefn\<close> is not a consistent
  comparator for its elements (\<open>None\<close> is a result \<open>NaN\<close>); ECMAScript leaves that order
  to the implementation.
\<close>

text \<open>\<open>Number(v)\<close> of a string or \<open>undefined\<close>: \<open>Number(undefined)\<close> is \<open>NaN\<close>.\<close>

fun Number_of :: "platform \<Rightarrow> string option \<Rightarrow> js_number" where
  "Number_of env None = NaN"
| "Number_of env (Some s) = StringToNumber env s"

subsection \<open>The listing parser\<close>

text \<open>
  The DOM as far as the parser reads it: elements with a tag name and child nodes, and
  character data with a node value. \<open>elements_by_tag\<close> is the document-order search
  of \<open>getElementsByTagName\<close> among the descendants.
\<close>

fun elements_by_tag :: "string \<Rightarrow> node list \<Rightarrow> node list" where
  "elements_by_tag tag [] = []"
| "elements_by_tag tag (Text v # ns) = elements_by_tag tag ns"
| "elements_by_tag tag (Element n cs # ns) =
     (if n = tag then [Element n cs] else []) @ elements_by_tag tag cs @ elements_by_tag tag ns"

fun childNodes :: "node \<Rightarrow> node list" where
  "childNodes (Element n cs) = cs"
| "childNodes (Text v) = []"

fun nodeValue :: "node \<Rightarrow> string option" where
  "nodeValue (Element n cs) = None"
| "nodeValue (Text v) = Some v"

definition getElementsByTagName :: "string \<Rightarrow> node \<Rightarrow> node list" where
  "getElementsByTagName tag e = elements_by_tag tag (childNodes e)"

fun getNodeText :: "node list \<Rightarrow> string option" where
  "getNodeText [] = None"
| "getNodeText (n # ns) =
     (case childNodes n of
        [] \<Rightarrow> None
      | c # cs \<Rightarrow>
          (case nodeValue c of
             None \<Rightarrow> None
           | Some v \<Rightarrow> if v \<noteq> [] then Some v else None))"

fun parseResponse_loop :: "platform \<Rightarrow> node list \<Rightarrow> LogStatus list \<Rightarrow> LogStatus list" where
  "parseResponse_loop env [] logStatus = logStatus"
| "parseResponse_loop env (response # responses) logStatus =
     parseResponse_loop env responses
       (case getNodeText (getElementsByTagName ''displayname'' response) of
          None \<Rightarrow> logStatus
        | Some name \<Rightarrow>
            if name \<noteq> [] \<and> endsWith name ''.log'' then
              logStatus @
              [\<lparr> filename = remove_qualifiers name,
                 lastmodifed = Date_parse env
                   (String_of (getNodeText (getElementsByTagName ''getlastmodified'' response))),
                 filePath = String_of (getNodeText (getElementsByTagName ''href'' response)),
                 length_js = Number_of env
                   (getNodeText (getElementsByTagName ''getcontentlength'' response)) \<rparr>]
            else logStatus)"

text \<open>
  What a promise is rejected with: an \<open>Error\<close> with its message, the \<open>TypeError\<close> of a
  call on \<open>undefined\<close>, or the error of the transport.
\<close>

datatype rejection = Error string | TypeError | TransportError string

text \<open>
  \<open>parseResponse\<close>: when the parser returns \<open>undefined\<close>, the call
  \<open>xmlResponse.getElementsByTagName\<close> throws.
\<close>

definition parseResponse :: "platform \<Rightarrow> string \<Rightarrow> rejection + LogStatus list" where
  "parseResponse env data =
     (case parseFromString env data of
        None \<Rightarrow> Inl TypeError
      | Some xmlResponse \<Rightarrow>
          Inr (parseResponse_loop env (elements_by_tag ''response'' xmlResponse) []))"

subsection \<open>The client registry\<close>

record DavOptions =
  hostname :: string
  root :: string
  version :: string

text \<open>
  Modelled from the spec: the class \<open>WebDav\<close> (\<open>../server/WebDav\<close>) is not among the
  sources. By the spec a remote client "carries per-host configuration (root path,
  protocol version, working folder)" and "exposes its immutable HostConfig": a client is
  the options it was built from (\<open>config\<close>) and its working folder.
\<close>

record WebDav =
  config :: DavOptions
  folder :: string

definition WebDav_new :: "DavOptions \<Rightarrow> WebDav" where
  "WebDav_new davOptins = \<lparr> config = davOptins, folder = [] \<rparr>"

text \<open>
  A JavaScript \<open>Map\<close> with string keys, as the list of its entries in insertion order:
  \<open>set\<close> overwrites the value of a present key in place and appends an absent one.
\<close>

type_synonym 'v js_map = "(string \<times> 'v) list"

definition Map_has :: "'v js_map \<Rightarrow> string \<Rightarrow> bool" where
  "Map_has m k = (k \<in> set (map fst m))"

definition Map_get :: "'v js_map \<Rightarrow> string \<Rightarrow> 'v option" where
  "Map_get m k = map_of m k"

fun Map_set :: "'v js_map \<Rightarrow> string \<Rightarrow> 'v \<Rightarrow> 'v js_map" where
  "Map_set [] k v = [(k, v)]"
| "Map_set (e # m) k v = (if fst e = k then (k, v) # m else e # Map_set m k v)"

definition Map_delete :: "'v js_map \<Rightarrow> string \<Rightarrow> 'v js_map" where
  "Map_delete m k = filter (\<lambda>e. fst e \<noteq> k) m"

definition Map_size :: "'v js_map \<Rightarrow> nat" where
  "Map_size m = length m"

definition Map_values :: "'v js_map \<Rightarrow> 'v list" where
  "Map_values m = map snd m"

text \<open>
  The state of a \<open>LogsView\<close>: the registry, the filter, and the number of times
  \<open>_onDidChangeTreeData.fire()\<close> has run.
\<close>

record LogsView =
  webdavClients :: "WebDav js_map"
  logsFileNameFilter :: string
  fired :: nat

definition LogsView_new :: LogsView where
  "LogsView_new = \<lparr> webdavClients = [], logsFileNameFilter = [], fired = 0 \<rparr>"

definition refresh :: "LogsView \<Rightarrow> LogsView" where
  "refresh logsView = logsView\<lparr> fired := Suc (fired logsView) \<rparr>"

text \<open>
  The observable that \<open>initialize\<close> builds for one \<open>davOptins\<close>: \<open>on_subscribe\<close> is
  the body that runs at subscription, \<open>on_unsubscribe\<close> the function it returns, which
  runs when the subscription is torn down.
\<close>

definition on_subscribe :: "DavOptions \<Rightarrow> LogsView \<Rightarrow> LogsView" where
  "on_subscribe davOptins logsView =
     (if \<not> Map_has (webdavClients logsView) (hostname davOptins) then
        refresh (logsView\<lparr> webdavClients :=
          Map_set (webdavClients logsView) (hostname davOptins)
            ((WebDav_new davOptins)\<lparr> config := (config (WebDav_new davOptins))\<lparr> version := [] \<rparr>,
                                       folder := ''Logs'' \<rparr>) \<rparr>)
      else logsView)"

definition on_unsubscribe :: "DavOptions \<Rightarrow> LogsView \<Rightarrow> LogsView" where
  "on_unsubscribe davOptins logsView =
     (if Map_has (webdavClients logsView) (hostname davOptins) then
        refresh (logsView\<lparr> webdavClients :=
          Map_delete (webdavClients logsView) (hostname davOptins) \<rparr>)
      else logsView)"

text \<open>
  The stream of configuration sources. Each source (an inner observable \<open>dwConfig$\<close>,
  named by a number) may resolve options any number of times before it ends; \<open>flatMap\<close>
  subscribes the observable above for each, and \<open>takeUntil(end$)\<close> unsubscribes all of
  the source's subscriptions when the source ends. A subscription of RxJS runs its
  teardown function once: the orchestrator keeps the subscriptions that are still open
  (\<open>opened\<close>, in the order of subscription) and drops them as they are torn down. A
  source that has ended resolves nothing more.
\<close>

record orchestrator =
  view :: LogsView
  opened :: "(nat \<times> DavOptions) list"
  ended :: "nat list"

datatype event = Resolved nat DavOptions | Ended nat

definition initialize :: orchestrator where
  "initialize = \<lparr> view = LogsView_new, opened = [], ended = [] \<rparr>"

fun teardown_all :: "DavOptions list \<Rightarrow> LogsView \<Rightarrow> LogsView" where
  "teardown_all [] logsView = logsView"
| "teardown_all (davOptins # rest) logsView = teardown_all rest (on_unsubscribe davOptins logsView)"

fun step :: "event \<Rightarrow> orchestrator \<Rightarrow> orchestrator" where
  "step (Resolved src davOptins) orch =
     (if src \<in> set (ended orch) then orch
      else orch\<lparr> view := on_subscribe davOptins (view orch),
                  opened := opened orch @ [(src, davOptins)] \<rparr>)"
| "step (Ended src) orch =
     orch\<lparr> view := teardown_all (map snd (filter (\<lambda>e. fst e = src) (opened orch))) (view orch),
           opened := filter (\<lambda>e. fst e \<noteq> src) (opened orch),
           ended := src # ended orch \<rparr>"

fun run :: "event list \<Rightarrow> orchestrator \<Rightarrow> orchestrator" where
  "run [] orch = orch"
| "run (e # es) orch = run es (step e orch)"

subsection \<open>Tree items and the commands\<close>

datatype TreeItemCollapsibleState = None_state | Collapsed | Expanded

text \<open>
  A \<open>LogItem\<close> as its constructor builds it. \<open>icon\<close> is the file name of the icon under
  \<open>images/resources\<close>; the \<open>command\<close> field of the source is the same for every
  item (it opens the item itself) and is left out.
\<close>

record LogItem =
  name :: string
  type :: string
  location :: string
  collapsibleState :: TreeItemCollapsibleState
  hostname :: string
  icon :: string
  contextValue :: string

definition LogItem_new ::
  "string \<Rightarrow> string \<Rightarrow> string \<Rightarrow> TreeItemCollapsibleState \<Rightarrow> string \<Rightarrow> LogItem" where
  "LogItem_new n t l c h =
     \<lparr> name = n, type = t, location = l, collapsibleState = c, hostname = h,
        icon = (case find (\<lambda>t. includes_js n t) [''fatal'', ''error'', ''warn'', ''info'', ''debug'']
                of Some iconType \<Rightarrow> iconType | None \<Rightarrow> ''log'') @ ''.svg'',
        contextValue = ''dwLogFile'' \<rparr>"

text \<open>What a command asks of its collaborators, in the order of the calls.\<close>

datatype effect =
    WithProgress string
  | PostBody string string string
  | Get string string string
  | OpenTextDocument string string
  | ShowTextDocument
  | RevealLastLine
  | ShowErrorMessage string

text \<open>
  \<open>cleanLog\<close>: \<open>PostBody h path body\<close> is the call \<open>postBody(path, body)\<close> on the client
  registered for \<open>h\<close>.
\<close>

definition cleanLog :: "platform \<Rightarrow> LogsView \<Rightarrow> LogItem \<Rightarrow> effect list" where
  "cleanLog env logsView logItem =
     (case Map_get (webdavClients logsView) (hostname logItem) of
        Some webdavClient \<Rightarrow>
          [WithProgress ''Cleaning log file'',
           PostBody (hostname logItem)
             (replace_string ''/on/demandware.servlet/webdav/Sites/Logs/'' [] (location logItem))
             (''log cleaned by prophet - '' @ Date_toString env (Some (Date_now env)) @ [newline])]
      | None \<Rightarrow> [])"

text \<open>The three replacements that \<open>openLog\<close> applies to the text of the file.\<close>

definition replace_timestamp :: "platform \<Rightarrow> string \<Rightarrow> string" where
  "replace_timestamp env filedata =
     replace_all timestamp_re
       (\<lambda>g. [newline, newline] @ ''['' @ timeago_format env (Date_parse env (g ! 1)) @ ''/''
              @ Date_toString env (Date_parse env (g ! 1)) @ '']'' @ [newline])
       filedata"

definition replace_paths :: "platform \<Rightarrow> string \<Rightarrow> string \<Rightarrow> string" where
  "replace_paths env root_path filedata =
     replace_all frame_re
       (\<lambda>g. tab # ''at '' @ Uri_parse_toString env (path_join env root_path (split CHR ''/'' (g ! 1)))
              @ ''#'' @ g ! 2 @ '' ('')
       filedata"

definition add_new_lines :: "string \<Rightarrow> string" where
  "add_new_lines filedata = replace_all spaces_re (\<lambda>g. [newline]) filedata"

definition transform :: "platform \<Rightarrow> string \<Rightarrow> string \<Rightarrow> string" where
  "transform env root_path filedata =
     add_new_lines (replace_paths env root_path (replace_timestamp env filedata))"

text \<open>
  \<open>openLog\<close>; \<open>response\<close> is what the transport answers to \<open>get\<close>: the text of the file
  (\<open>Inr\<close>) or an error (\<open>Inl\<close>).
\<close>

definition openLog :: "platform \<Rightarrow> LogsView \<Rightarrow> LogItem \<Rightarrow> string + string \<Rightarrow> effect list" where
  "openLog env logsView logItem response =
     (case Map_get (webdavClients logsView) (hostname logItem) of
        Some webdavClient \<Rightarrow>
          [WithProgress ''Opening log file'',
           Get (hostname logItem) (path_basename env (location logItem)) ''.''] @
          (case response of
             Inr filedata \<Rightarrow>
               [OpenTextDocument ''dwlog''
                  (transform env (root (config webdavClient)) filedata),
                ShowTextDocument, RevealLastLine]
           | Inl err \<Rightarrow> [ShowErrorMessage err])
      | None \<Rightarrow> [])"

text \<open>
  \<open>Array.prototype.sort\<close> with a comparator whose result may be \<open>NaN\<close> (\<open>None\<close>), which
  \<open>SortCompare\<close> counts as \<open>0\<close>. \<open>consistent\<close> is the condition of ECMAScript on the
  comparator and the elements (no \<open>NaN\<close>; \<open>= 0\<close> reflexive, symmetric and transitive;
  \<open>< 0\<close> and \<open>> 0\<close> transitive). Under it the result is fixed by the language (from
  ECMAScript 2019 on, where the sort is stable): the elements in the order of the
  comparator, equal ones in their order in the array, which the insertion below
  computes. Otherwise the order is the engine's.
\<close>

definition SortCompare :: "('a \<Rightarrow> 'a \<Rightarrow> int option) \<Rightarrow> 'a \<Rightarrow> 'a \<Rightarrow> int" where
  "SortCompare comparefn x y = (case comparefn x y of None \<Rightarrow> 0 | Some v \<Rightarrow> v)"

fun insert_sorted :: "('a \<Rightarrow> 'a \<Rightarrow> int option) \<Rightarrow> 'a \<Rightarrow> 'a list \<Rightarrow> 'a list" where
  "insert_sorted comparefn x [] = [x]"
| "insert_sorted comparefn x (y # ys) =
     (if SortCompare comparefn x y \<le> 0 then x # y # ys
      else y # insert_sorted comparefn x ys)"

definition consistent :: "('a \<Rightarrow> 'a \<Rightarrow> int option) \<Rightarrow> 'a list \<Rightarrow> bool" where
  "consistent comparefn xs =
     ((\<forall>a \<in> set xs. \<forall>b \<in> set xs. comparefn a b \<noteq> None)
      \<and> (\<forall>a \<in> set xs. SortCompare comparefn a a = 0)
      \<and> (\<forall>a \<in> set xs. \<forall>b \<in> set xs.
            SortCompare comparefn a b = 0 \<longrightarrow> SortCompare comparefn b a = 0)
      \<and> (\<forall>a \<in> set xs. \<forall>b \<in> set xs. \<forall>c \<in> set xs.
            SortCompare comparefn a b = 0 \<and> SortCompare comparefn b c = 0 \<longrightarrow>
            SortCompare comparefn a c = 0)
      \<and> (\<forall>a \<in> set xs. \<forall>b \<in> set xs. \<forall>c \<in> set xs.
            SortCompare comparefn a b < 0 \<and> SortCompare comparefn b c < 0 \<longrightarrow>
            SortCompare comparefn a c < 0)
      \<and> (\<forall>a \<in> set xs. \<forall>b \<in> set xs. \<forall>c \<in> set xs.
            SortCompare comparefn a b > 0 \<and> SortCompare comparefn b c > 0 \<longrightarrow>
            SortCompare comparefn a c > 0))"

definition Array_sort ::
  "platform \<Rightarrow> (LogStatus \<Rightarrow> LogStatus \<Rightarrow> int option) \<Rightarrow> LogStatus list \<Rightarrow> LogStatus list" where
  "Array_sort env comparefn xs =
     (if consistent comparefn xs then foldr (insert_sorted comparefn) xs []
      else engine_sort env comparefn xs)"

text \<open>\<open>(a, b) => b.lastmodifed.getTime() - a.lastmodifed.getTime()\<close>.\<close>

definition by_lastmodifed :: "LogStatus \<Rightarrow> LogStatus \<Rightarrow> int option" where
  "by_lastmodifed a b =
     (case (lastmodifed b, lastmodifed a) of
        (Some tb, Some ta) \<Rightarrow> Some (tb - ta)
      | _ \<Rightarrow> None)"

text \<open>
  \<open>getChildren\<close>; \<open>listing\<close> is what the transport answers to \<open>dirList\<close>: the text of the
  listing (\<open>Inr\<close>) or an error (\<open>Inl\<close>). The result is the value of the promise (\<open>Inr\<close>)
  or the reason of its rejection (\<open>Inl\<close>).
\<close>

definition getChildren ::
  "platform \<Rightarrow> LogsView \<Rightarrow> LogItem option \<Rightarrow> string + string \<Rightarrow> rejection + LogItem list" where
  "getChildren env logsView element listing =
     (if Map_size (webdavClients logsView) = 0 then Inr []
      else
        (case element of
           Some el \<Rightarrow>
             (case Map_get (webdavClients logsView) (hostname el) of
                Some webdavClient \<Rightarrow>
                  (case listing of
                     Inl err \<Rightarrow> Inl (TransportError err)
                   | Inr data \<Rightarrow>
                       (case parseResponse env data of
                          Inl thrown \<Rightarrow> Inl thrown
                        | Inr statuses \<Rightarrow>
                            Inr (map (\<lambda>status. LogItem_new (filename status) ''file''
                                        (filePath status) None_state (hostname el))
                                  (Array_sort env by_lastmodifed
                                    (if logsFileNameFilter logsView \<noteq> [] then
                                       filter (\<lambda>status. includes_js (filename status)
                                                 (logsFileNameFilter logsView))
                                         statuses
                                     else statuses)))))
              | None \<Rightarrow> Inl (Error ''Unable get webdav client''))
         | None \<Rightarrow>
             Inr (map (\<lambda>webdavClient.
                        LogItem_new
                          (case split CHR ''.'' (DavOptions.hostname (config webdavClient)) of
                             [] \<Rightarrow> ''noName''
                           | label # labels \<Rightarrow> if label \<noteq> [] then label else ''noName'')
                          ''host'' (DavOptions.hostname (config webdavClient)) Collapsed
                          (DavOptions.hostname (config webdavClient)))
                   (Map_values (webdavClients logsView)))))"

text \<open>The \<open>postBody\<close> calls (path and body) and the error messages among the effects.\<close>

fun post_calls :: "effect list \<Rightarrow> (string \<times> string) list" where
  "post_calls [] = []"
| "post_calls (PostBody h path body # es) = (path, body) # post_calls es"
| "post_calls (e # es) = post_calls es"

fun reports :: "effect list \<Rightarrow> string list" where
  "reports [] = []"
| "reports (ShowErrorMessage err # es) = err # reports es"
| "reports (e # es) = reports es"

subsection \<open>A platform for examples\<close>

text \<open>
  The sort of V8 for an array of fewer than 64 elements (\<open>array-sort.tq\<close>): the longest
  run at the start that is in order, or strictly against the order and then reversed
  (\<open>CountAndMakeRun\<close>), and the other elements inserted one by one at the place that a
  binary search finds (\<open>BinaryInsertionSort\<close>).
\<close>

fun extend_run ::
  "('a \<Rightarrow> 'a \<Rightarrow> int option) \<Rightarrow> bool \<Rightarrow> 'a \<Rightarrow> 'a list \<Rightarrow> 'a list \<times> 'a list" where
  "extend_run comparefn isDescending previousElement [] = ([], [])"
| "extend_run comparefn isDescending previousElement (currentElement # rest) =
     (if (if isDescending then SortCompare comparefn currentElement previousElement \<ge> 0
          else SortCompare comparefn currentElement previousElement < 0)
      then ([], currentElement # rest)
      else (case extend_run comparefn isDescending currentElement rest of
              (taken, remaining) \<Rightarrow> (currentElement # taken, remaining)))"

fun CountAndMakeRun :: "('a \<Rightarrow> 'a \<Rightarrow> int option) \<Rightarrow> 'a list \<Rightarrow> 'a list \<times> 'a list" where
  "CountAndMakeRun comparefn (elementHigh # elementLow # rest) =
     (case extend_run comparefn (SortCompare comparefn elementLow elementHigh < 0) elementLow rest of
        (taken, remaining) \<Rightarrow>
          (if SortCompare comparefn elementLow elementHigh < 0
           then rev (elementHigh # elementLow # taken)
           else elementHigh # elementLow # taken,
           remaining))"
| "CountAndMakeRun comparefn xs = (xs, [])"

function binary_search ::
  "('a \<Rightarrow> 'a \<Rightarrow> int option) \<Rightarrow> 'a \<Rightarrow> 'a list \<Rightarrow> nat \<Rightarrow> nat \<Rightarrow> nat" where
  "binary_search comparefn pivot workArray left right =
     (if left < right then
        (if SortCompare comparefn pivot (workArray ! (left + (right - left) div 2)) < 0
         then binary_search comparefn pivot workArray left (left + (right - left) div 2)
         else binary_search comparefn pivot workArray (left + (right - left) div 2 + 1) right)
      else left)"
  by pat_completeness auto
termination
  by (relation "measure (\<lambda>(comparefn, pivot, workArray, left, right). right - left)") auto

declare binary_search.simps [simp del]

fun BinaryInsertionSort :: "('a \<Rightarrow> 'a \<Rightarrow> int option) \<Rightarrow> 'a list \<Rightarrow> 'a list \<Rightarrow> 'a list" where
  "BinaryInsertionSort comparefn workArray [] = workArray"
| "BinaryInsertionSort comparefn workArray (pivot # rest) =
     BinaryInsertionSort comparefn
       (take (binary_search comparefn pivot workArray 0 (length workArray)) workArray @ pivot
          # drop (binary_search comparefn pivot workArray 0 (length workArray)) workArray)
       rest"

definition V8_sort :: "('a \<Rightarrow> 'a \<Rightarrow> int option) \<Rightarrow> 'a list \<Rightarrow> 'a list" where
  "V8_sort comparefn xs =
     (case CountAndMakeRun comparefn xs of
        (taken, remaining) \<Rightarrow> BinaryInsertionSort comparefn taken remaining)"

text \<open>
  A platform whose parser returns a given document for every text but the empty one, with
  a table for the dates and the numbers that the examples use, and the sort of V8.
\<close>

definition example_platform :: "node list \<Rightarrow> platform" where
  "example_platform document =
     \<lparr> parseFromString = (\<lambda>data. if data = [] then None else Some document),
        Date_parse = map_of [(''Thu Jan 01 1970 00:00:00 GMT'', 0),
                             (''Thu, 01 Jan 1970 00:00:01 GMT'', 1000),
                             (''Thu, 01 Jan 1970 00:00:02 GMT'', 2000),
                             (''Thu, 01 Jan 1970 00:00:03 GMT'', 3000)],
        Date_toString = (\<lambda>date. case date of None \<Rightarrow> ''Invalid Date''
                          | Some t \<Rightarrow> ''Thu Jan 01 1970 00:00:00 GMT+0000 (UTC)''),
        Date_now = 1541203200000,
        timeago_format = (\<lambda>date. ''48 years ago''),
        StringToNumber = (\<lambda>text. case map_of [(''0'', Finite 0), (''1024'', Finite 1024)] text of
                            None \<Rightarrow> NaN | Some n \<Rightarrow> n),
        path_join = (\<lambda>root_path segments. root_path @ concat (map (\<lambda>s. ''/'' @ s) segments)),
        path_basename = (\<lambda>p. last (split CHR ''/'' p)),
        Uri_parse_toString = (\<lambda>p. ''file://'' @ p),
        engine_sort = V8_sort \<rparr>"

text \<open>The sample of a log file: a dated message and a stack frame.\<close>

definition sample_log :: string where
  "sample_log = ''[Thu Jan 01 1970 00:00:00 GMT] hello  world'' @ [newline, tab]
     @ ''at app/controllers/Foo.js:12 (native)''"

text \<open>A view with one client, for \<open>dev01.example.com\<close>.\<close>

definition example_view :: LogsView where
  "example_view =
     view (run [Resolved 1 \<lparr> DavOptions.hostname = ''dev01.example.com'', root = ''/Sites/Logs'',
                               version = ''1'' \<rparr>] initialize)"

subsection \<open>Notions used in the proofs\<close>

text \<open>
  The texts that \<open>blade_re\<close> matches entirely: \<open>-blade\<close>, at most two digits, a dash,
  at most two digits, \<open>-appserver\<close>, in any letter case.
\<close>

definition digits02 :: "string \<Rightarrow> bool" where
  "digits02 d = (length d \<le> 2 \<and> list_all is_digit d)"

definition qualifier :: "string \<Rightarrow> bool" where
  "qualifier m = (\<exists>a d1 d2 c. m = a @ d1 @ CHR ''-'' # d2 @ c
      \<and> map toUpperCase a = map toUpperCase ''-blade'' \<and> digits02 d1 \<and> digits02 d2
      \<and> map toUpperCase c = map toUpperCase ''-appserver'')"



section \<open>Properties\<close>

subsection \<open>Characters and the matcher\<close>

lemma toUpperCase_other:
  "x \<notin> set ''abcdefghijklmnopqrstuvwxyz'' \<Longrightarrow> toUpperCase x = x"
proof -
  assume "x \<notin> set ''abcdefghijklmnopqrstuvwxyz''"
  then have "map_of (zip ''abcdefghijklmnopqrstuvwxyz'' ''ABCDEFGHIJKLMNOPQRSTUVWXYZ'') x = None"
    by (subst map_of_zip_is_None) simp_all
  then show ?thesis by (simp add: toUpperCase_def)
qed

lemma toUpperCase_letter:
  "x \<in> set ''abcdefghijklmnopqrstuvwxyz'' \<Longrightarrow>
     toUpperCase x \<in> set ''ABCDEFGHIJKLMNOPQRSTUVWXYZ''"
  by (auto simp: toUpperCase_def)


lemma letter_not_special:
  "x \<in> set ''abcdefghijklmnopqrstuvwxyz'' \<Longrightarrow> x \<noteq> CHR ''-'' \<and> \<not> is_digit x"
  by (auto simp: is_digit_def)

lemma upper_not_special:
  "y \<in> set ''ABCDEFGHIJKLMNOPQRSTUVWXYZ'' \<Longrightarrow> y \<noteq> CHR ''-'' \<and> \<not> is_digit y"
  by (auto simp: is_digit_def)

lemma up_dash [simp]: "toUpperCase x = CHR ''-'' \<longleftrightarrow> x = CHR ''-''"
proof (cases "x \<in> set ''abcdefghijklmnopqrstuvwxyz''")
  case True
  from upper_not_special [OF toUpperCase_letter [OF True]] letter_not_special [OF True]
  show ?thesis by blast
next
  case False
  from toUpperCase_other [OF this] show ?thesis by simp
qed

lemma up_digit [simp]: "is_digit (toUpperCase x) \<longleftrightarrow> is_digit x"
proof (cases "x \<in> set ''abcdefghijklmnopqrstuvwxyz''")
  case True
  from upper_not_special [OF toUpperCase_letter [OF True]] letter_not_special [OF True]
  show ?thesis by blast
next
  case False
  from toUpperCase_other [OF this] show ?thesis by simp
qed

lemma digit_up [simp]: "is_digit x \<Longrightarrow> toUpperCase x = x"
  by (rule toUpperCase_other) (auto simp: is_digit_def)

lemma digit_not_dash [simp]: "\<not> is_digit CHR ''-''"
  by (simp add: is_digit_def)

lemma lit_SomeD:
  "match_here (Lit c # r) s = Some z \<Longrightarrow>
     \<exists>x s'. s = x # s' \<and> toUpperCase x = toUpperCase c \<and> match_here r s' = Some z"
  by (cases s) (auto split: if_splits)

lemma digits_SomeD:
  "match_here (Digits02 # r) s = Some z \<Longrightarrow>
     match_here r s = Some z
     \<or> (\<exists>x s'. s = x # s' \<and> is_digit x \<and> match_here r s' = Some z)
     \<or> (\<exists>x y s'. s = x # y # s' \<and> is_digit x \<and> is_digit y \<and> match_here r s' = Some z)"
  by (cases "(Digits02 # r, s)" rule: match_here.cases) (auto split: if_splits option.splits)


lemma lits_SomeD:
  "match_here (map Lit l @ r) s = Some z \<Longrightarrow>
     \<exists>a s'. s = a @ s' \<and> map toUpperCase a = map toUpperCase l \<and> match_here r s' = Some z"
proof (induction l arbitrary: s)
  case Nil
  then show ?case by simp
next
  case (Cons c l)
  from Cons.prems obtain x s1 where s: "s = x # s1" "toUpperCase x = toUpperCase c"
    and m: "match_here (map Lit l @ r) s1 = Some z"
    by (auto dest: lit_SomeD)
  from Cons.IH [OF m] obtain a s' where
    "s1 = a @ s'" "map toUpperCase a = map toUpperCase l" "match_here r s' = Some z"
    by blast
  with s have "s = (x # a) @ s' \<and> map toUpperCase (x # a) = map toUpperCase (c # l)
      \<and> match_here r s' = Some z"
    by simp
  then show ?case by blast
qed


lemma digits_SomeD':
  assumes "match_here (Digits02 # r) s = Some z"
  shows "\<exists>d s'. s = d @ s' \<and> digits02 d \<and> match_here r s' = Some z"
proof -
  from digits_SomeD [OF assms] consider
      "match_here r s = Some z"
    | x s' where "s = x # s'" "is_digit x" "match_here r s' = Some z"
    | x y s' where "s = x # y # s'" "is_digit x" "is_digit y" "match_here r s' = Some z"
    by blast
  then show ?thesis
  proof cases
    case 1
    then have "s = [] @ s \<and> digits02 [] \<and> match_here r s = Some z"
      by (simp add: digits02_def)
    then show ?thesis by blast
  next
    case 2
    then have "s = [x] @ s' \<and> digits02 [x] \<and> match_here r s' = Some z"
      by (simp add: digits02_def)
    then show ?thesis by blast
  next
    case 3
    then have "s = [x, y] @ s' \<and> digits02 [x, y] \<and> match_here r s' = Some z"
      by (simp add: digits02_def)
    then show ?thesis by blast
  qed
qed

lemma blade_sound:
  assumes "match_here blade_re w = Some (ms, t)"
  shows "ms = [] \<and> (\<exists>m. w = m @ t \<and> qualifier m)"
proof -
  let ?r1 = "[Digits02, Lit CHR ''-'', Digits02] @ map Lit ''-appserver''"
  from assms have "match_here (map Lit ''-blade'' @ ?r1) w = Some (ms, t)"
    by (simp only: blade_re_def)
  from lits_SomeD [OF this] obtain a s1 where a: "w = a @ s1"
      "map toUpperCase a = map toUpperCase ''-blade''"
      and m1: "match_here ?r1 s1 = Some (ms, t)"
    by blast
  from m1 have "match_here (Digits02 # Lit CHR ''-'' # Digits02 # map Lit ''-appserver'') s1
      = Some (ms, t)"
    by simp
  from digits_SomeD' [OF this] obtain d1 s2 where d1: "s1 = d1 @ s2" "digits02 d1"
      and m2: "match_here (Lit CHR ''-'' # Digits02 # map Lit ''-appserver'') s2 = Some (ms, t)"
    by blast
  from lit_SomeD [OF m2] obtain x s3 where x: "s2 = x # s3" "x = CHR ''-''"
      and m3: "match_here (Digits02 # map Lit ''-appserver'') s3 = Some (ms, t)"
    by (auto simp: toUpperCase_other)
  from digits_SomeD' [OF m3] obtain d2 s4 where d2: "s3 = d2 @ s4" "digits02 d2"
      and m4: "match_here (map Lit ''-appserver'' @ []) s4 = Some (ms, t)"
    by auto
  from lits_SomeD [OF m4] obtain c s5 where c: "s4 = c @ s5"
      "map toUpperCase c = map toUpperCase ''-appserver''"
      and m5: "match_here [] s5 = Some (ms, t)"
    by blast
  from m5 have e: "ms = []" "s5 = t" by simp_all
  have "w = (a @ d1 @ CHR ''-'' # d2 @ c) @ t"
    using a(1) d1(1) x d2(1) c(1) e(2) by simp
  moreover have "qualifier (a @ d1 @ CHR ''-'' # d2 @ c)"
    unfolding qualifier_def using a(2) d1(2) d2(2) c(2) by blast
  ultimately show ?thesis using e(1) by blast
qed










lemma digit_not_upper [simp]: "is_digit x \<Longrightarrow> x \<noteq> CHR ''B'' \<and> x \<noteq> CHR ''-''"
  by (auto simp: is_digit_def)



















lemma blade_none_Nil: "match_here blade_re [] = None"
  by (simp add: blade_re_def)



subsection \<open>The listing parser\<close>

lemma loop_acc:
  "parseResponse_loop env rs acc = acc @ parseResponse_loop env rs []"
proof (induction rs arbitrary: acc)
  case Nil
  then show ?case by simp
next
  case (Cons r rs)
  show ?case
    by (subst (1 2) parseResponse_loop.simps(2), subst Cons.IH, subst (2) Cons.IH)
       (simp split: option.split)
qed

lemma loop_Cons:
  "parseResponse_loop env (r # rs) [] =
     parseResponse_loop env [r] [] @ parseResponse_loop env rs []"
  by (simp only: parseResponse_loop.simps) (rule loop_acc)

lemma loop_append:
  "parseResponse_loop env (before @ r # after) [] =
     parseResponse_loop env before [] @ parseResponse_loop env [r] []
       @ parseResponse_loop env after []"
proof (induction before)
  case Nil
  show ?case by (simp only: append_Nil parseResponse_loop.simps(1)) (rule loop_Cons)
next
  case (Cons b before)
  show ?case
    by (simp only: append_Cons loop_Cons [of env b "before @ r # after"] Cons.IH
          loop_Cons [of env b before] append_assoc)
qed





lemma no_qualifier_unchanged:
  assumes "\<forall>pre m post. base = pre @ m @ post \<longrightarrow> \<not> qualifier m"
  shows "remove_qualifiers base = base"
  using assms
proof (induction base)
  case Nil
  then show ?case by (simp add: remove_qualifiers_def blade_none_Nil)
next
  case (Cons x s)
  have "match_here blade_re (x # s) = None"
  proof (rule ccontr)
    assume "match_here blade_re (x # s) \<noteq> None"
    then obtain ms t where "match_here blade_re (x # s) = Some (ms, t)" by auto
    from blade_sound [OF this] obtain m where "x # s = [] @ m @ t" "qualifier m"
      by auto
    with Cons.prems show False by metis
  qed
  moreover have "\<forall>pre m post. s = pre @ m @ post \<longrightarrow> \<not> qualifier m"
  proof (intro allI impI)
    fix pre m post
    assume "s = pre @ m @ post"
    then have "x # s = (x # pre) @ m @ post" by simp
    with Cons.prems show "\<not> qualifier m" by metis
  qed
  ultimately show ?case using Cons.IH by (simp add: remove_qualifiers_def)
qed

lemma parseResponse_parsed:
  assumes "parseFromString env data = Some xmlResponse"
    and "elements_by_tag ''response'' xmlResponse = before @ response # after"
  shows "parseResponse env data =
           Inr (parseResponse_loop env before [] @ parseResponse_loop env [response] []
                @ parseResponse_loop env after [])"
  using assms by (simp add: parseResponse_def loop_append [of env before response after])

lemmas ex_simps = example_platform_def parseResponse_def getElementsByTagName_def
  remove_qualifiers_def blade_re_def toUpperCase_def is_digit_def endsWith_def




lemma endsWith_not_Nil: "endsWith dn ''.log'' \<Longrightarrow> dn \<noteq> []"
  by (auto simp: endsWith_def)

text \<open>
  C6 (as amended): for a retained entry, the size of the descriptor is \<open>NaN\<close> when the
  \<open>getcontentlength\<close> field is missing, and otherwise what \<open>Number\<close> makes of the text
  of the field; there is no default of \<open>0\<close>.
\<close>

theorem contentlength_number:
  assumes "parseFromString env data = Some xmlResponse"
    and "elements_by_tag ''response'' xmlResponse = before @ response # after"
    and "getNodeText (getElementsByTagName ''displayname'' response) = Some dn"
    and "endsWith dn ''.log''"
  shows "map_sum id (map length_js) (parseResponse env data) =
           Inr (map length_js (parseResponse_loop env before [])
                @ [case getNodeText (getElementsByTagName ''getcontentlength'' response) of
                     None \<Rightarrow> NaN | Some text \<Rightarrow> StringToNumber env text]
                @ map length_js (parseResponse_loop env after []))"
proof -
  have "map length_js (parseResponse_loop env [response] []) =
      [Number_of env (getNodeText (getElementsByTagName ''getcontentlength'' response))]"
    using assms(3,4) endsWith_not_Nil [OF assms(4)] by simp
  also have "Number_of env (getNodeText (getElementsByTagName ''getcontentlength'' response)) =
      (case getNodeText (getElementsByTagName ''getcontentlength'' response) of
         None \<Rightarrow> NaN | Some text \<Rightarrow> StringToNumber env text)"
    by (cases "getNodeText (getElementsByTagName ''getcontentlength'' response)") simp_all
  finally show ?thesis
    unfolding parseResponse_parsed [OF assms(1,2)] by simp
qed

theorem contentlength_number_witness:
  "map_sum id (map length_js) (parseResponse
      (example_platform [Element ''multistatus''
         [Element ''response'' [Element ''displayname'' [Text ''error.log'']],
          Element ''response'' [Element ''displayname'' [Text ''custom.log''],
                                Element ''getcontentlength'' [Text ''1024'']]]])
      (''<multistatus>''
       @ ''<response><displayname>error.log</displayname></response>''
       @ ''<response><displayname>custom.log</displayname><getcontentlength>1024</getcontentlength></response>''
       @ ''</multistatus>''))
    = Inr [NaN, Finite 1024]"
  using contentlength_number [of
      "example_platform [Element ''multistatus''
         [Element ''response'' [Element ''displayname'' [Text ''error.log'']],
          Element ''response'' [Element ''displayname'' [Text ''custom.log''],
                                Element ''getcontentlength'' [Text ''1024'']]]]"
      "''<multistatus>''
       @ ''<response><displayname>error.log</displayname></response>''
       @ ''<response><displayname>custom.log</displayname><getcontentlength>1024</getcontentlength></response>''
       @ ''</multistatus>''"
      "[Element ''multistatus''
         [Element ''response'' [Element ''displayname'' [Text ''error.log'']],
          Element ''response'' [Element ''displayname'' [Text ''custom.log''],
                                Element ''getcontentlength'' [Text ''1024'']]]]" "[]"
      "Element ''response'' [Element ''displayname'' [Text ''error.log'']]"
      "[Element ''response'' [Element ''displayname'' [Text ''custom.log''],
                                Element ''getcontentlength'' [Text ''1024'']]]"
      "''error.log''"]
  by (simp add: ex_simps)

theorem contentlength_counterexample:
  "map_sum id (map length_js) (parseResponse
      (example_platform [Element ''multistatus''
         [Element ''response'' [Element ''displayname'' [Text ''error.log''],
                                Element ''href'' [Text ''/Logs/error.log'']]]])
      (''<multistatus>''
       @ ''<response><displayname>error.log</displayname><href>/Logs/error.log</href></response>''
       @ ''</multistatus>''))
    = Inr [NaN]
   \<and> NaN \<noteq> Finite 0"
  by (simp add: ex_simps)

text \<open>
  C7 (as amended): an entry without a \<open>displayname\<close> produces no descriptor; an entry
  whose \<open>displayname\<close> ends with \<open>.log\<close> and that has no \<open>href\<close> is kept, with the
  remote path \<open>undefined\<close>. In both cases the other entries are parsed as they are
  without this one.
\<close>

theorem malformed_entries:
  assumes "parseFromString env data = Some xmlResponse"
    and "elements_by_tag ''response'' xmlResponse = before @ response # after"
  shows "(getNodeText (getElementsByTagName ''displayname'' response) = None \<longrightarrow>
            parseResponse env data =
              Inr (parseResponse_loop env before [] @ parseResponse_loop env after []))
       \<and> (\<forall>dn. getNodeText (getElementsByTagName ''displayname'' response) = Some dn
              \<and> endsWith dn ''.log''
              \<and> getNodeText (getElementsByTagName ''href'' response) = None \<longrightarrow>
            parseResponse env data =
              Inr (parseResponse_loop env before []
                   @ [\<lparr> filename = remove_qualifiers dn,
                         lastmodifed = Date_parse env (String_of (getNodeText
                           (getElementsByTagName ''getlastmodified'' response))),
                         filePath = ''undefined'',
                         length_js = Number_of env (getNodeText
                           (getElementsByTagName ''getcontentlength'' response)) \<rparr>]
                   @ parseResponse_loop env after []))"
proof (intro conjI impI allI)
  assume "getNodeText (getElementsByTagName ''displayname'' response) = None"
  then have "parseResponse_loop env [response] [] = []" by simp
  then show "parseResponse env data =
      Inr (parseResponse_loop env before [] @ parseResponse_loop env after [])"
    unfolding parseResponse_parsed [OF assms] by simp
next
  fix dn
  assume a: "getNodeText (getElementsByTagName ''displayname'' response) = Some dn
      \<and> endsWith dn ''.log''
      \<and> getNodeText (getElementsByTagName ''href'' response) = None"
  then have "dn \<noteq> []" by (simp add: endsWith_not_Nil)
  with a have "parseResponse_loop env [response] [] =
      [\<lparr> filename = remove_qualifiers dn,
          lastmodifed = Date_parse env (String_of (getNodeText
            (getElementsByTagName ''getlastmodified'' response))),
          filePath = ''undefined'',
          length_js = Number_of env (getNodeText
            (getElementsByTagName ''getcontentlength'' response)) \<rparr>]"
    by simp
  then show "parseResponse env data =
      Inr (parseResponse_loop env before []
           @ [\<lparr> filename = remove_qualifiers dn,
                 lastmodifed = Date_parse env (String_of (getNodeText
                   (getElementsByTagName ''getlastmodified'' response))),
                 filePath = ''undefined'',
                 length_js = Number_of env (getNodeText
                   (getElementsByTagName ''getcontentlength'' response)) \<rparr>]
           @ parseResponse_loop env after [])"
    unfolding parseResponse_parsed [OF assms] by simp
qed

theorem malformed_entries_witness:
  "parseResponse
      (example_platform [Element ''multistatus''
         [Element ''response'' [Element ''href'' [Text ''/Logs/a.log'']],
          Element ''response'' [Element ''displayname'' [Text ''b.log'']]]])
      (''<multistatus>''
       @ ''<response><href>/Logs/a.log</href></response>''
       @ ''<response><displayname>b.log</displayname></response>''
       @ ''</multistatus>'')
    = Inr [\<lparr> filename = ''b.log'', lastmodifed = None, filePath = ''undefined'',
              length_js = NaN \<rparr>]"
  using malformed_entries [of
      "example_platform [Element ''multistatus''
         [Element ''response'' [Element ''href'' [Text ''/Logs/a.log'']],
          Element ''response'' [Element ''displayname'' [Text ''b.log'']]]]"
      "''<multistatus>''
       @ ''<response><href>/Logs/a.log</href></response>''
       @ ''<response><displayname>b.log</displayname></response>''
       @ ''</multistatus>''"
      "[Element ''multistatus''
         [Element ''response'' [Element ''href'' [Text ''/Logs/a.log'']],
          Element ''response'' [Element ''displayname'' [Text ''b.log'']]]]" "[]"
      "Element ''response'' [Element ''href'' [Text ''/Logs/a.log'']]"
      "[Element ''response'' [Element ''displayname'' [Text ''b.log'']]]"]
    malformed_entries [of
      "example_platform [Element ''multistatus''
         [Element ''response'' [Element ''href'' [Text ''/Logs/a.log'']],
          Element ''response'' [Element ''displayname'' [Text ''b.log'']]]]"
      "''<multistatus>''
       @ ''<response><href>/Logs/a.log</href></response>''
       @ ''<response><displayname>b.log</displayname></response>''
       @ ''</multistatus>''"
      "[Element ''multistatus''
         [Element ''response'' [Element ''href'' [Text ''/Logs/a.log'']],
          Element ''response'' [Element ''displayname'' [Text ''b.log'']]]]"
      "[Element ''response'' [Element ''href'' [Text ''/Logs/a.log'']]]"
      "Element ''response'' [Element ''displayname'' [Text ''b.log'']]"
      "[]"]
  by (simp add: ex_simps)

theorem malformed_entries_counterexample:
  "map_sum id (map filePath) (parseResponse
      (example_platform [Element ''multistatus''
         [Element ''response'' [Element ''displayname'' [Text ''error.log'']]]])
      (''<multistatus>''
       @ ''<response><displayname>error.log</displayname></response>''
       @ ''</multistatus>''))
    = Inr [''undefined'']"
  by (simp add: ex_simps)

subsection \<open>The client registry\<close>


lemma Map_set_keys: "set (map fst (Map_set m k v)) = insert k (set (map fst m))"
  by (induction m) auto

lemma Map_set_distinct: "distinct (map fst m) \<Longrightarrow> distinct (map fst (Map_set m k v))"
proof (induction m)
  case Nil
  then show ?case by simp
next
  case (Cons e m)
  then show ?case using Map_set_keys [of m k v] by auto
qed

lemma Map_delete_distinct: "distinct (map fst m) \<Longrightarrow> distinct (map fst (Map_delete m k))"
  by (simp add: Map_delete_def distinct_map_filter)

lemma Map_has_delete: "Map_has (Map_delete m k) h \<longleftrightarrow> Map_has m h \<and> h \<noteq> k"
  by (auto simp: Map_has_def Map_delete_def)

lemma Map_get_delete: "Map_get (Map_delete m k) h = (if h = k then None else Map_get m h)"
  by (induction m) (auto simp: Map_get_def Map_delete_def)

lemma on_subscribe_distinct:
  "distinct (map fst (webdavClients lv)) \<Longrightarrow>
     distinct (map fst (webdavClients (on_subscribe d lv)))"
  by (simp add: on_subscribe_def refresh_def Map_set_distinct)

lemma on_unsubscribe_distinct:
  "distinct (map fst (webdavClients lv)) \<Longrightarrow>
     distinct (map fst (webdavClients (on_unsubscribe d lv)))"
  by (simp add: on_unsubscribe_def refresh_def Map_delete_distinct)

lemma teardown_all_distinct:
  "distinct (map fst (webdavClients lv)) \<Longrightarrow>
     distinct (map fst (webdavClients (teardown_all ds lv)))"
  by (induction ds arbitrary: lv) (simp_all add: on_unsubscribe_distinct)

lemma step_distinct:
  "distinct (map fst (webdavClients (view orch))) \<Longrightarrow>
     distinct (map fst (webdavClients (view (step e orch))))"
  by (cases e) (simp_all add: on_subscribe_distinct teardown_all_distinct)

lemma run_distinct:
  "distinct (map fst (webdavClients (view orch))) \<Longrightarrow>
     distinct (map fst (webdavClients (view (run es orch))))"
  by (induction es arbitrary: orch) (simp_all add: step_distinct)

lemma on_unsubscribe_has:
  "Map_has (webdavClients (on_unsubscribe d lv)) h \<longleftrightarrow>
     Map_has (webdavClients lv) h \<and> h \<noteq> DavOptions.hostname d"
  by (auto simp: on_unsubscribe_def refresh_def Map_has_delete)

lemma on_unsubscribe_get:
  "h \<noteq> DavOptions.hostname d \<Longrightarrow>
     Map_get (webdavClients (on_unsubscribe d lv)) h = Map_get (webdavClients lv) h"
  by (simp add: on_unsubscribe_def refresh_def Map_get_delete)

lemma teardown_all_has:
  "Map_has (webdavClients (teardown_all ds lv)) h \<longleftrightarrow>
     Map_has (webdavClients lv) h \<and> h \<notin> DavOptions.hostname ` set ds"
  by (induction ds arbitrary: lv) (auto simp: on_unsubscribe_has)

lemma teardown_all_get:
  "h \<notin> DavOptions.hostname ` set ds \<Longrightarrow>
     Map_get (webdavClients (teardown_all ds lv)) h = Map_get (webdavClients lv) h"
  by (induction ds arbitrary: lv) (simp_all add: on_unsubscribe_get)

lemmas registry_simps = initialize_def LogsView_new_def on_subscribe_def on_unsubscribe_def
  refresh_def Map_has_def Map_delete_def WebDav_new_def

text \<open>
  C1: whatever the sources resolve and whenever they end, the registry holds at most one
  client per host name; and resolving options whose host name is registered already
  leaves the view as it is: no client is created or replaced and no refresh is fired.
\<close>

theorem one_client_per_hostname:
  "distinct (map fst (webdavClients (view (run events initialize))))
   \<and> (Map_has (webdavClients (view orch)) (DavOptions.hostname davOptins) \<longrightarrow>
        on_subscribe davOptins (view orch) = view orch
        \<and> view (step (Resolved src davOptins) orch) = view orch)"
proof -
  have "distinct (map fst (webdavClients (view initialize)))"
    by (simp add: initialize_def LogsView_new_def)
  then have "distinct (map fst (webdavClients (view (run events initialize))))"
    by (rule run_distinct)
  moreover have "Map_has (webdavClients (view orch)) (DavOptions.hostname davOptins) \<longrightarrow>
        on_subscribe davOptins (view orch) = view orch
        \<and> view (step (Resolved src davOptins) orch) = view orch"
    by (simp add: on_subscribe_def)
  ultimately show ?thesis by simp
qed

theorem one_client_per_hostname_witness:
  "Map_has (webdavClients (view (run [Resolved 1 \<lparr> DavOptions.hostname = ''dev01.example.com'', root = ''/cartridges'', version = ''1'' \<rparr>] initialize))) ''dev01.example.com''
   \<and> map fst (webdavClients (view (run
        [Resolved 1 \<lparr> DavOptions.hostname = ''dev01.example.com'', root = ''/cartridges'', version = ''1'' \<rparr>,
         Resolved 2 \<lparr> DavOptions.hostname = ''dev01.example.com'', root = ''/other'', version = ''2'' \<rparr>]
        initialize))) = [''dev01.example.com'']
   \<and> view (run
        [Resolved 1 \<lparr> DavOptions.hostname = ''dev01.example.com'', root = ''/cartridges'', version = ''1'' \<rparr>,
         Resolved 2 \<lparr> DavOptions.hostname = ''dev01.example.com'', root = ''/other'', version = ''2'' \<rparr>]
        initialize)
     = view (run [Resolved 1 \<lparr> DavOptions.hostname = ''dev01.example.com'', root = ''/cartridges'', version = ''1'' \<rparr>] initialize)"
  using one_client_per_hostname [of
      "[Resolved 1 \<lparr> DavOptions.hostname = ''dev01.example.com'', root = ''/cartridges'', version = ''1'' \<rparr>,
        Resolved 2 \<lparr> DavOptions.hostname = ''dev01.example.com'', root = ''/other'', version = ''2'' \<rparr>]"
      "run [Resolved 1 \<lparr> DavOptions.hostname = ''dev01.example.com'', root = ''/cartridges'', version = ''1'' \<rparr>] initialize"
      "\<lparr> DavOptions.hostname = ''dev01.example.com'', root = ''/other'', version = ''2'' \<rparr>" 2]
  by (simp add: registry_simps)

text \<open>
  C2 (as amended): when a source ends, the cleanup of each of its open subscriptions
  runs, once: none of them is open afterwards, and the source ending again changes
  neither the view nor the open subscriptions. The cleanup removes the client registered
  under the host name of its subscription whichever source created that client, so
  no host name that the source had resolved has a client afterwards; the clients of the
  other host names are kept.
\<close>

theorem cleanup_by_hostname:
  "(\<forall>e \<in> set (opened (step (Ended src) orch)). fst e \<noteq> src)
   \<and> view (step (Ended src) (step (Ended src) orch)) = view (step (Ended src) orch)
   \<and> opened (step (Ended src) (step (Ended src) orch)) = opened (step (Ended src) orch)
   \<and> ((src, davOptins) \<in> set (opened orch) \<longrightarrow>
        \<not> Map_has (webdavClients (view (step (Ended src) orch))) (DavOptions.hostname davOptins))
   \<and> ((\<forall>e \<in> set (opened orch). fst e = src \<longrightarrow> DavOptions.hostname (snd e) \<noteq> h) \<longrightarrow>
        Map_get (webdavClients (view (step (Ended src) orch))) h
          = Map_get (webdavClients (view orch)) h)"
proof (intro conjI impI)
  show "\<forall>e \<in> set (opened (step (Ended src) orch)). fst e \<noteq> src" by simp
  have none: "filter (\<lambda>e. fst e = src) (filter (\<lambda>e. fst e \<noteq> src) (opened orch)) = []"
    by (induction "opened orch") (auto simp: filter_empty_conv)
  show "view (step (Ended src) (step (Ended src) orch)) = view (step (Ended src) orch)"
    by (simp add: none)
  show "opened (step (Ended src) (step (Ended src) orch)) = opened (step (Ended src) orch)"
    by simp
next
  assume "(src, davOptins) \<in> set (opened orch)"
  then have "DavOptions.hostname davOptins
      \<in> DavOptions.hostname ` set (map snd (filter (\<lambda>e. fst e = src) (opened orch)))"
    by force
  then show "\<not> Map_has (webdavClients (view (step (Ended src) orch))) (DavOptions.hostname davOptins)"
    by (simp add: teardown_all_has)
next
  assume "\<forall>e \<in> set (opened orch). fst e = src \<longrightarrow> DavOptions.hostname (snd e) \<noteq> h"
  then have "h \<notin> DavOptions.hostname ` set (map snd (filter (\<lambda>e. fst e = src) (opened orch)))"
    by auto
  then show "Map_get (webdavClients (view (step (Ended src) orch))) h
      = Map_get (webdavClients (view orch)) h"
    by (simp add: teardown_all_get)
qed


theorem cleanup_by_hostname_witness:
  "(2, \<lparr> DavOptions.hostname = ''dev02.example.com'', root = ''/b'', version = ''1'' \<rparr>)
     \<in> set (opened (run
        [Resolved 1 \<lparr> DavOptions.hostname = ''dev01.example.com'', root = ''/a'', version = ''1'' \<rparr>,
         Resolved 2 \<lparr> DavOptions.hostname = ''dev02.example.com'', root = ''/b'', version = ''1'' \<rparr>]
        initialize))
   \<and> \<not> Map_has (webdavClients (view (run
        [Resolved 1 \<lparr> DavOptions.hostname = ''dev01.example.com'', root = ''/a'', version = ''1'' \<rparr>,
         Resolved 2 \<lparr> DavOptions.hostname = ''dev02.example.com'', root = ''/b'', version = ''1'' \<rparr>,
         Ended 2]
        initialize))) ''dev02.example.com''
   \<and> map fst (webdavClients (view (run
        [Resolved 1 \<lparr> DavOptions.hostname = ''dev01.example.com'', root = ''/a'', version = ''1'' \<rparr>,
         Resolved 2 \<lparr> DavOptions.hostname = ''dev02.example.com'', root = ''/b'', version = ''1'' \<rparr>,
         Ended 2]
        initialize))) = [''dev01.example.com'']"
  using cleanup_by_hostname [of 2
      "run [Resolved 1 \<lparr> DavOptions.hostname = ''dev01.example.com'', root = ''/a'', version = ''1'' \<rparr>,
            Resolved 2 \<lparr> DavOptions.hostname = ''dev02.example.com'', root = ''/b'', version = ''1'' \<rparr>]
         initialize"
      "\<lparr> DavOptions.hostname = ''dev02.example.com'', root = ''/b'', version = ''1'' \<rparr>"
      "''dev01.example.com''"]
  by (simp add: registry_simps Map_get_def)

theorem cleanup_attribution_counterexample:
  "Map_has (webdavClients (view (run
        [Resolved 1 \<lparr> DavOptions.hostname = ''dev01.example.com'', root = ''/a'', version = ''1'' \<rparr>,
         Resolved 2 \<lparr> DavOptions.hostname = ''dev01.example.com'', root = ''/a'', version = ''1'' \<rparr>]
        initialize))) ''dev01.example.com''
   \<and> \<not> Map_has (webdavClients (view (run
        [Resolved 1 \<lparr> DavOptions.hostname = ''dev01.example.com'', root = ''/a'', version = ''1'' \<rparr>,
         Resolved 2 \<lparr> DavOptions.hostname = ''dev01.example.com'', root = ''/a'', version = ''1'' \<rparr>,
         Ended 2]
        initialize))) ''dev01.example.com''
   \<and> (1, \<lparr> DavOptions.hostname = ''dev01.example.com'', root = ''/a'', version = ''1'' \<rparr>)
       \<in> set (opened (run
        [Resolved 1 \<lparr> DavOptions.hostname = ''dev01.example.com'', root = ''/a'', version = ''1'' \<rparr>,
         Resolved 2 \<lparr> DavOptions.hostname = ''dev01.example.com'', root = ''/a'', version = ''1'' \<rparr>,
         Ended 2]
        initialize))"
  by (simp add: registry_simps)


subsection \<open>The commands\<close>

lemma startsWith_append [simp]: "startsWith (p @ s) p"
  by (induction p) simp_all

lemma replace_string_prefix: "p \<noteq> [] \<Longrightarrow> replace_string p r (p @ s) = r @ s"
  by (cases p) simp_all

text \<open>
  C3 (as amended): with a client registered for the host of the item, \<open>cleanLog\<close> issues
  exactly one \<open>postBody\<close> call; its body starts with \<open>log cleaned by prophet - \<close>, and
  its path is the location of the item without the first occurrence of
  \<open>/on/demandware.servlet/webdav/Sites/Logs/\<close>: what follows that prefix is posted to as it
  is, with any qualifier it has.
\<close>

theorem cleanLog_posts_once:
  assumes "Map_get (webdavClients logsView) (hostname logItem) = Some webdavClient"
  shows "\<exists>body. post_calls (cleanLog env logsView logItem) =
             [(replace_string ''/on/demandware.servlet/webdav/Sites/Logs/'' [] (location logItem),
               body)]
           \<and> startsWith body ''log cleaned by prophet - ''
           \<and> (\<forall>rest. location logItem = ''/on/demandware.servlet/webdav/Sites/Logs/'' @ rest \<longrightarrow>
                 post_calls (cleanLog env logsView logItem) = [(rest, body)])"
proof -
  let ?body = "''log cleaned by prophet - '' @ Date_toString env (Some (Date_now env)) @ [newline]"
  have 1: "post_calls (cleanLog env logsView logItem) =
      [(replace_string ''/on/demandware.servlet/webdav/Sites/Logs/'' [] (location logItem), ?body)]"
    using assms by (simp add: cleanLog_def)
  have 2: "startsWith ?body ''log cleaned by prophet - ''"
    by (rule startsWith_append)
  have 3: "\<forall>rest. location logItem = ''/on/demandware.servlet/webdav/Sites/Logs/'' @ rest \<longrightarrow>
      post_calls (cleanLog env logsView logItem) = [(rest, ?body)]"
  proof (intro allI impI)
    fix rest
    assume l: "location logItem = ''/on/demandware.servlet/webdav/Sites/Logs/'' @ rest"
    have "replace_string ''/on/demandware.servlet/webdav/Sites/Logs/'' []
        (''/on/demandware.servlet/webdav/Sites/Logs/'' @ rest) = [] @ rest"
      by (rule replace_string_prefix) simp
    with 1 l show "post_calls (cleanLog env logsView logItem) = [(rest, ?body)]"
      by simp
  qed
  from 1 2 3 show ?thesis by blast
qed

lemmas command_simps = example_view_def cleanLog_def openLog_def getChildren_def Map_get_def
  Map_size_def LogItem_new_def

theorem cleanLog_posts_once_witness:
  "post_calls (cleanLog (example_platform []) example_view
      (LogItem_new ''error.log'' ''file''
         ''/on/demandware.servlet/webdav/Sites/Logs/error.log'' None_state ''dev01.example.com''))
    = [(''error.log'',
        ''log cleaned by prophet - Thu Jan 01 1970 00:00:00 GMT+0000 (UTC)'' @ [newline])]"
  using cleanLog_posts_once [of example_view
      "LogItem_new ''error.log'' ''file''
         ''/on/demandware.servlet/webdav/Sites/Logs/error.log'' None_state ''dev01.example.com''"
      _ "example_platform []"]
  by (simp add: command_simps registry_simps ex_simps)

theorem cleanLog_path_counterexample:
  "post_calls (cleanLog (example_platform []) example_view
      (LogItem_new ''error.log'' ''file''
         ''/on/demandware.servlet/webdav/Sites/Logs/error-blade0-1-appserver.log'' None_state
         ''dev01.example.com''))
    = [(''error-blade0-1-appserver.log'',
        ''log cleaned by prophet - Thu Jan 01 1970 00:00:00 GMT+0000 (UTC)'' @ [newline])]
   \<and> remove_qualifiers ''error-blade0-1-appserver.log'' = ''error.log''
   \<and> ''error-blade0-1-appserver.log'' \<noteq> ''error.log''"
  by (simp add: command_simps registry_simps ex_simps)

text \<open>
  C4 (as amended): for an item whose host has no client in the registry, \<open>cleanLog\<close> and
  \<open>openLog\<close> do nothing at all (no call to the transport, no error message);
  \<open>getChildren\<close> returns no items when the registry is empty and is otherwise rejected
  with the error \<open>Unable get webdav client\<close>.
\<close>

theorem missing_client:
  assumes "Map_get (webdavClients logsView) (hostname logItem) = None"
  shows "cleanLog env logsView logItem = []
       \<and> openLog env logsView logItem response = []
       \<and> getChildren env logsView (Some logItem) listing =
           (if Map_size (webdavClients logsView) = 0 then Inr []
            else Inl (Error ''Unable get webdav client''))"
  using assms by (simp add: cleanLog_def openLog_def getChildren_def)

theorem missing_client_witness:
  "cleanLog (example_platform []) example_view
      (LogItem_new ''error.log'' ''file'' ''/Logs/error.log'' None_state ''dev02.example.com'') = []
   \<and> openLog (example_platform []) example_view
      (LogItem_new ''error.log'' ''file'' ''/Logs/error.log'' None_state ''dev02.example.com'')
      (Inr ''text'') = []
   \<and> getChildren (example_platform []) example_view
      (Some (LogItem_new ''error.log'' ''file'' ''/Logs/error.log'' None_state
         ''dev02.example.com''))
      (Inr []) = Inl (Error ''Unable get webdav client'')"
  using missing_client [of example_view
      "LogItem_new ''error.log'' ''file'' ''/Logs/error.log'' None_state ''dev02.example.com''"
      "example_platform []" "Inr ''text''" "Inr []"]
  by (simp add: command_simps registry_simps)

theorem missing_client_counterexample:
  "reports (cleanLog (example_platform []) example_view
      (LogItem_new ''error.log'' ''file'' ''/Logs/error.log'' None_state ''dev02.example.com'')) = []
   \<and> reports (openLog (example_platform []) example_view
      (LogItem_new ''error.log'' ''file'' ''/Logs/error.log'' None_state ''dev02.example.com'')
      (Inr ''text'')) = []
   \<and> getChildren (example_platform []) LogsView_new
      (Some (LogItem_new ''error.log'' ''file'' ''/Logs/error.log'' None_state
         ''dev02.example.com''))
      (Inr []) = Inr []"
  by (simp add: command_simps registry_simps)

text \<open>
  C10: with an empty registry \<open>getChildren\<close> returns the empty list for every argument,
  also for an element whose host has no client: the rejection is not reached.
\<close>

theorem getChildren_empty_registry:
  assumes "Map_size (webdavClients logsView) = 0"
  shows "getChildren env logsView element listing = Inr []"
  using assms by (simp add: getChildren_def)

theorem getChildren_empty_registry_witness:
  "Map_size (webdavClients LogsView_new) = 0
   \<and> getChildren (example_platform []) LogsView_new
      (Some (LogItem_new ''dev02'' ''host'' ''dev02.example.com'' Collapsed ''dev02.example.com''))
      (Inl ''timeout'') = Inr []"
  using getChildren_empty_registry [of LogsView_new "example_platform []"
      "Some (LogItem_new ''dev02'' ''host'' ''dev02.example.com'' Collapsed ''dev02.example.com'')"
      "Inl ''timeout''"]
  by (simp add: LogsView_new_def Map_size_def)


subsection \<open>The order of the file items\<close>








lemma consistent_by_lastmodifed:
  "consistent by_lastmodifed xs \<longleftrightarrow> (\<forall>x \<in> set xs. lastmodifed x \<noteq> None)"
proof
  assume c: "consistent by_lastmodifed xs"
  show "\<forall>x \<in> set xs. lastmodifed x \<noteq> None"
  proof
    fix x
    assume "x \<in> set xs"
    with c have "by_lastmodifed x x \<noteq> None" by (simp add: consistent_def)
    then show "lastmodifed x \<noteq> None"
      by (auto simp: by_lastmodifed_def split: option.splits)
  qed
next
  assume v: "\<forall>x \<in> set xs. lastmodifed x \<noteq> None"
  have s: "SortCompare by_lastmodifed a b = the (lastmodifed b) - the (lastmodifed a)"
    if "a \<in> set xs" "b \<in> set xs" for a b
  proof -
    from v that have "lastmodifed a \<noteq> None" "lastmodifed b \<noteq> None" by blast+
    then obtain ta tb where "lastmodifed a = Some ta" "lastmodifed b = Some tb" by auto
    then show ?thesis by (simp add: SortCompare_def by_lastmodifed_def)
  qed
  have n: "by_lastmodifed a b \<noteq> None" if "a \<in> set xs" "b \<in> set xs" for a b
  proof -
    from v that have "lastmodifed a \<noteq> None" "lastmodifed b \<noteq> None" by blast+
    then obtain ta tb where "lastmodifed a = Some ta" "lastmodifed b = Some tb" by auto
    then show ?thesis by (simp add: by_lastmodifed_def)
  qed
  show "consistent by_lastmodifed xs"
    unfolding consistent_def by (intro conjI ballI impI) (simp_all add: s n)
qed


lemma Array_sort_invalid:
  "\<exists>x \<in> set xs. lastmodifed x = None \<Longrightarrow>
     Array_sort env by_lastmodifed xs = engine_sort env by_lastmodifed xs"
  by (auto simp: Array_sort_def consistent_by_lastmodifed)


lemma getChildren_unparsed:
  assumes "Map_get (webdavClients logsView) (hostname element) = Some webdavClient"
    and "parseFromString env data = None"
  shows "getChildren env logsView (Some element) (Inr data) = Inl TypeError"
proof -
  from assms(1) have "webdavClients logsView \<noteq> []" by (auto simp: Map_get_def)
  with assms show ?thesis by (simp add: getChildren_def Map_size_def parseResponse_def)
qed





subsection \<open>The transformation of the log text\<close>


lemma toUpperCase_symbol:
  assumes "c \<notin> set ''abcdefghijklmnopqrstuvwxyz''" and "c \<notin> set ''ABCDEFGHIJKLMNOPQRSTUVWXYZ''"
  shows "toUpperCase x = toUpperCase c \<longleftrightarrow> x = c"
proof (cases "x \<in> set ''abcdefghijklmnopqrstuvwxyz''")
  case True
  from toUpperCase_letter [OF True] assms(2) have "toUpperCase x \<noteq> c" by metis
  moreover from True assms(1) have "x \<noteq> c" by metis
  ultimately show ?thesis using toUpperCase_other [OF assms(1)] by simp
next
  case False
  from toUpperCase_other [OF this] toUpperCase_other [OF assms(1)] show ?thesis by simp
qed

lemma up_tab [simp]: "toUpperCase x = toUpperCase tab \<longleftrightarrow> x = tab"
  by (rule toUpperCase_symbol) simp_all

lemma up_space [simp]: "toUpperCase x = toUpperCase CHR '' '' \<longleftrightarrow> x = CHR '' ''"
  by (rule toUpperCase_symbol) simp_all

lemma replace_all_skip:
  assumes "\<forall>x \<in> set X. toUpperCase x \<noteq> toUpperCase c"
  shows "replace_all (Lit c # r) f (X @ Y) = X @ replace_all (Lit c # r) f Y"
  using assms by (induction X) simp_all

lemma add_new_lines_simps:
  "add_new_lines [] = []"
  "add_new_lines [x] = [x]"
  "add_new_lines (x # y # s) =
     (if x = CHR '' '' \<and> y = CHR '' '' then newline # add_new_lines s
      else x # add_new_lines (y # s))"
  by (simp_all add: add_new_lines_def spaces_re_def groups_def)


lemma add_new_lines_cut:
  assumes "c \<noteq> CHR '' ''"
  shows "add_new_lines (X @ c # Y) = add_new_lines X @ c # add_new_lines Y"
proof (induction X rule: induct_list012)
  case 1
  from assms show ?case by (cases Y) (simp_all add: add_new_lines_simps)
next
  case (2 x)
  from assms have "add_new_lines (c # Y) = c # add_new_lines Y"
    by (cases Y) (simp_all add: add_new_lines_simps)
  with assms show ?case by (simp add: add_new_lines_simps)
next
  case (3 x y zs)
  then show ?case by (simp add: add_new_lines_simps)
qed

lemma add_new_lines_tidy:
  "\<not> includes_js X ''  '' \<Longrightarrow> add_new_lines X = X"
  by (induction X rule: induct_list012) (auto simp: add_new_lines_simps)

lemma space_free_tidy:
  "CHR '' '' \<notin> set U \<Longrightarrow> \<not> includes_js (CHR '' '' # U) ''  ''"
  by (induction U) auto

lemma timestamp_sample:
  "replace_timestamp env sample_log =
     [newline, newline] @ ''['' @ timeago_format env (Date_parse env ''Thu Jan 01 1970 00:00:00 GMT'')
     @ ''/'' @ Date_toString env (Date_parse env ''Thu Jan 01 1970 00:00:00 GMT'') @ '']''
     @ [newline] @ ''hello  world'' @ [newline, tab] @ ''at app/controllers/Foo.js:12 (native)''"
  by (simp add: replace_timestamp_def sample_log_def timestamp_re_def groups_def
        toUpperCase_def line_terminator_def)


lemma paths_frame:
  "replace_paths env rp (tab # ''at app/controllers/Foo.js:12 (native)'') =
     tab # ''at '' @ Uri_parse_toString env (path_join env rp [''app'', ''controllers'', ''Foo.js''])
     @ ''#12 (native)''"
  by (simp add: replace_paths_def frame_re_def groups_def toUpperCase_def line_terminator_def)

lemma paths_skip:
  assumes "tab \<notin> set X"
  shows "replace_paths env rp (X @ Y) = X @ replace_paths env rp Y"
proof -
  define r where "r = tl frame_re"
  have fr: "frame_re = Lit tab # r" by (simp add: r_def frame_re_def)
  from assms have "\<forall>x \<in> set X. toUpperCase x \<noteq> toUpperCase tab" by auto
  then show ?thesis
    unfolding replace_paths_def fr by (rule replace_all_skip)
qed

text \<open>
  C8: on a platform where \<open>join\<close> builds \<open>/Sites/Logs/app/controllers/Foo.js\<close> from the
  root path and the segments, where the two renderings of the date have no tab and no
  double space and the text of the URI has no space, the sample becomes: a blank line, the
  block \<open>[relative time/date]\<close>, then \<open>hello\<close> and \<open>world\<close> on two lines, and the
  stack line with the URI of \<open>/Sites/Logs/app/controllers/Foo.js\<close>, \<open>#\<close> and the line
  \<open>12\<close>.
\<close>

theorem transform_sample:
  assumes "path_join env ''/Sites/Logs'' [''app'', ''controllers'', ''Foo.js'']
             = ''/Sites/Logs/app/controllers/Foo.js''"
    and "tab \<notin> set (timeago_format env (Date_parse env ''Thu Jan 01 1970 00:00:00 GMT''))"
    and "tab \<notin> set (Date_toString env (Date_parse env ''Thu Jan 01 1970 00:00:00 GMT''))"
    and "\<not> includes_js (timeago_format env (Date_parse env ''Thu Jan 01 1970 00:00:00 GMT'')) ''  ''"
    and "\<not> includes_js (Date_toString env (Date_parse env ''Thu Jan 01 1970 00:00:00 GMT'')) ''  ''"
    and "CHR '' '' \<notin> set (Uri_parse_toString env ''/Sites/Logs/app/controllers/Foo.js'')"
  shows "transform env ''/Sites/Logs'' sample_log =
           [newline, newline] @ ''[''
           @ timeago_format env (Date_parse env ''Thu Jan 01 1970 00:00:00 GMT'') @ ''/''
           @ Date_toString env (Date_parse env ''Thu Jan 01 1970 00:00:00 GMT'') @ '']''
           @ [newline] @ ''hello'' @ [newline] @ ''world'' @ [newline, tab] @ ''at ''
           @ Uri_parse_toString env ''/Sites/Logs/app/controllers/Foo.js'' @ ''#12 (native)''"
proof -
  define R where "R = timeago_format env (Date_parse env ''Thu Jan 01 1970 00:00:00 GMT'')"
  define D where "D = Date_toString env (Date_parse env ''Thu Jan 01 1970 00:00:00 GMT'')"
  define U where "U = Uri_parse_toString env ''/Sites/Logs/app/controllers/Foo.js''"
  note h = assms [folded R_def D_def U_def]
  define X where "X = [newline, newline] @ ''['' @ R @ ''/'' @ D @ '']'' @ [newline]
      @ ''hello  world'' @ [newline]"
  define Y where "Y = tab # ''at app/controllers/Foo.js:12 (native)''"
  have 1: "replace_timestamp env sample_log = X @ Y"
    unfolding R_def D_def X_def Y_def by (simp add: timestamp_sample)
  have "tab \<notin> set X"
    unfolding X_def using h(2,3) by simp
  then have "replace_paths env ''/Sites/Logs'' (X @ Y) = X @ replace_paths env ''/Sites/Logs'' Y"
    by (rule paths_skip)
  also have "replace_paths env ''/Sites/Logs'' Y = tab # ''at '' @ U @ ''#12 (native)''"
    unfolding Y_def paths_frame U_def assms(1) ..
  finally have 2: "replace_paths env ''/Sites/Logs'' (replace_timestamp env sample_log) =
      X @ tab # ''at '' @ U @ ''#12 (native)''"
    unfolding 1 .
  have a: "add_new_lines (CHR '' '' # U @ CHR ''#'' # ''12 (native)'') =
      CHR '' '' # U @ CHR ''#'' # ''12 (native)''"
  proof -
    have "add_new_lines ((CHR '' '' # U) @ CHR ''#'' # ''12 (native)'') =
        add_new_lines (CHR '' '' # U) @ CHR ''#'' # add_new_lines ''12 (native)''"
      by (rule add_new_lines_cut) simp
    moreover have "add_new_lines (CHR '' '' # U) = CHR '' '' # U"
      using h(6) by (intro add_new_lines_tidy space_free_tidy)
    moreover have "add_new_lines ''12 (native)'' = ''12 (native)''"
      by (simp add: add_new_lines_simps)
    ultimately show ?thesis by simp
  qed
  have b: "add_new_lines ((newline # ''hello  world'' @ [newline, tab, CHR ''a'']) @ CHR ''t''
        # (CHR '' '' # U @ CHR ''#'' # ''12 (native)'')) =
      add_new_lines (newline # ''hello  world'' @ [newline, tab, CHR ''a'']) @ CHR ''t''
        # add_new_lines (CHR '' '' # U @ CHR ''#'' # ''12 (native)'')"
    by (rule add_new_lines_cut) simp
  have c: "add_new_lines (newline # ''hello  world'' @ [newline, tab, CHR ''a'']) =
      newline # ''hello'' @ [newline] @ ''world'' @ [newline, tab, CHR ''a'']"
    by (simp add: add_new_lines_simps)
  have d: "add_new_lines (D @ CHR '']'' # (newline # ''hello  world'' @ [newline, tab, CHR ''a''])
        @ CHR ''t'' # (CHR '' '' # U @ CHR ''#'' # ''12 (native)'')) =
      D @ CHR '']'' # add_new_lines ((newline # ''hello  world'' @ [newline, tab, CHR ''a''])
        @ CHR ''t'' # (CHR '' '' # U @ CHR ''#'' # ''12 (native)''))"
    using add_new_lines_cut [of "CHR '']''" D] add_new_lines_tidy [OF h(5)] by simp
  have e: "add_new_lines (R @ CHR ''/'' # D @ CHR '']''
        # (newline # ''hello  world'' @ [newline, tab, CHR ''a''])
        @ CHR ''t'' # (CHR '' '' # U @ CHR ''#'' # ''12 (native)'')) =
      R @ CHR ''/'' # add_new_lines (D @ CHR '']''
        # (newline # ''hello  world'' @ [newline, tab, CHR ''a''])
        @ CHR ''t'' # (CHR '' '' # U @ CHR ''#'' # ''12 (native)''))"
    using add_new_lines_cut [of "CHR ''/''" R] add_new_lines_tidy [OF h(4)] by simp
  have f: "add_new_lines ([newline, newline] @ CHR ''['' # R @ CHR ''/'' # D @ CHR '']''
        # (newline # ''hello  world'' @ [newline, tab, CHR ''a''])
        @ CHR ''t'' # (CHR '' '' # U @ CHR ''#'' # ''12 (native)'')) =
      [newline, newline] @ CHR ''['' # add_new_lines (R @ CHR ''/'' # D @ CHR '']''
        # (newline # ''hello  world'' @ [newline, tab, CHR ''a''])
        @ CHR ''t'' # (CHR '' '' # U @ CHR ''#'' # ''12 (native)''))"
    using add_new_lines_cut [of "CHR ''[''" "[newline, newline]"]
    by (simp add: add_new_lines_simps)
  have "transform env ''/Sites/Logs'' sample_log =
      add_new_lines ([newline, newline] @ CHR ''['' # R @ CHR ''/'' # D @ CHR '']''
        # (newline # ''hello  world'' @ [newline, tab, CHR ''a''])
        @ CHR ''t'' # (CHR '' '' # U @ CHR ''#'' # ''12 (native)''))"
    unfolding transform_def 2 X_def by simp
  also have "\<dots> = [newline, newline] @ ''['' @ R @ ''/'' @ D @ '']''
      @ [newline] @ ''hello'' @ [newline] @ ''world'' @ [newline, tab] @ ''at '' @ U
      @ ''#12 (native)''"
    unfolding f e d b c a by simp
  finally show ?thesis unfolding R_def D_def U_def .
qed

theorem transform_sample_witness:
  "transform (example_platform []) ''/Sites/Logs'' sample_log =
     [newline, newline] @ ''[48 years ago/Thu Jan 01 1970 00:00:00 GMT+0000 (UTC)]''
     @ [newline] @ ''hello'' @ [newline] @ ''world'' @ [newline, tab]
     @ ''at file:///Sites/Logs/app/controllers/Foo.js#12 (native)''"
  using transform_sample [of "example_platform []"]
  by (simp add: example_platform_def)


end
